theory Spec2Isabelle
  imports Complex_Main
begin

section \<open>The image viewer widget (\<open>main.py\<close> of the image viewer example)\<close>

text \<open>
  The program is one widget class, \<open>ImageViewer\<close>, whose methods are called by the
  toolkit's event loop. The model below is a record of the widget's fields together
  with the part of the toolkit state the methods read and write (view transform,
  scene, window size, scroll offset, the zoom animation), and one HOL function per
  method, each returning the updated state.

  Python floats are modelled as \<open>real\<close>: arithmetic is exact, so the literals
  \<open>1.1\<close> and \<open>0.9\<close> are the rationals \<open>11/10\<close> and \<open>9/10\<close>, a comparison of two
  floats is a comparison of the exact values, and statements that the source makes
  "within floating-point tolerance" are equalities here. Cursor coordinates are rounded
  exactly, into unbounded integers. Float division by zero raises
  \<open>ZeroDivisionError\<close> in Python; it is a value of the model. Console output
  (\<open>print\<close>) is not part of the modelled state.
\<close>

subsection \<open>Errors and arithmetic\<close>

datatype error = ZeroDivisionError

definition py_div :: "real \<Rightarrow> real \<Rightarrow> error + real" where
  "py_div a b = (if b = 0 then Inl ZeroDivisionError else Inr (a / b))"

type_synonym qpoint = "int \<times> int"
type_synonym qpointf = "real \<times> real"

text \<open>\<open>QPointF - QPointF\<close>, componentwise.\<close>

definition pointf_sub :: "qpointf \<Rightarrow> qpointf \<Rightarrow> qpointf" where
  "pointf_sub p q = (fst p - fst q, snd p - snd q)"

text \<open>\<open>qRound\<close>: rounding half away from zero, as \<open>QPointF.toPoint\<close> does on each
  coordinate.\<close>

definition qRound :: "real \<Rightarrow> int" where
  "qRound d = (if 0 \<le> d then \<lfloor>d + 1 / 2\<rfloor> else \<lceil>d - 1 / 2\<rceil>)"

definition toPoint :: "qpointf \<Rightarrow> qpoint" where
  "toPoint p = (qRound (fst p), qRound (snd p))"

subsection \<open>Toolkit values: transform, animation, pixmap\<close>

text \<open>
  The view transform. The program only ever resets, scales and translates it, so the
  off-diagonal entries of the toolkit's 3x3 matrix stay zero and the transform is the
  map \<open>(x, y) \<mapsto> (tm11 * x + tdx, tm22 * y + tdy)\<close> from scene to view coordinates.
  \<open>scale\<close> and \<open>translate\<close> act in scene coordinates (they are applied before the
  existing transform), as the toolkit documents.
\<close>

record qtransform =
  tm11 :: real
  tm22 :: real
  tdx :: real
  tdy :: real

definition qt_identity :: qtransform where
  "qt_identity = \<lparr>tm11 = 1, tm22 = 1, tdx = 0, tdy = 0\<rparr>"

definition qt_scale :: "qtransform \<Rightarrow> real \<Rightarrow> real \<Rightarrow> qtransform" where
  "qt_scale t sx sy = t\<lparr>tm11 := tm11 t * sx, tm22 := tm22 t * sy\<rparr>"

definition qt_translate :: "qtransform \<Rightarrow> real \<Rightarrow> real \<Rightarrow> qtransform" where
  "qt_translate t x y = t\<lparr>tdx := tdx t + x * tm11 t, tdy := tdy t + y * tm22 t\<rparr>"

definition qt_map :: "qtransform \<Rightarrow> qpointf \<Rightarrow> qpointf" where
  "qt_map t p = (tm11 t * fst p + tdx t, tm22 t * snd p + tdy t)"

text \<open>\<open>QTransform.inverted\<close>: the identity is returned for a singular matrix.\<close>

definition qt_inverted :: "qtransform \<Rightarrow> qtransform" where
  "qt_inverted t =
     (if tm11 t = 0 \<or> tm22 t = 0 then qt_identity
      else \<lparr>tm11 = 1 / tm11 t, tm22 = 1 / tm22 t,
            tdx = - tdx t / tm11 t, tdy = - tdy t / tm22 t\<rparr>)"

text \<open>
  The zoom animation object (\<open>QVariantAnimation\<close>): its state, its two key values
  (unset until \<open>setStartValue\<close> / \<open>setEndValue\<close> are called), its progress (the
  current time divided by the duration) and its current value (invalid until first
  computed). The value at progress \<open>t\<close> is the linear interpolation
  \<open>start + (end - start) * t\<close> (the default easing curve).

  Whenever a key value is set, the animation is started or its time advances, the
  toolkit recomputes the current value at the current progress, provided both key
  values are set, and emits \<open>valueChanged\<close> with the new value if it differs from the
  previous one. Each operation below returns the updated animation together with the
  emitted value, if any. \<open>stop\<close> leaves the progress where it is; \<open>start\<close> on a stopped
  animation rewinds the progress to 0; the animation stops by itself when the progress
  reaches 1.
\<close>

datatype anim_state = Stopped | Paused | Running

record animation =
  anim_state :: anim_state
  start_value :: "real option"
  end_value :: "real option"
  progress :: real
  current_value :: "real option"

definition interpolated :: "animation \<Rightarrow> real \<Rightarrow> real option" where
  "interpolated a t =
     (case (start_value a, end_value a) of
        (Some v0, Some v1) \<Rightarrow> Some (v0 + (v1 - v0) * t)
      | _ \<Rightarrow> None)"

definition recalculate :: "animation \<Rightarrow> animation \<times> real option" where
  "recalculate a =
     (case interpolated a (progress a) of
        None \<Rightarrow> (a, None)
      | Some v \<Rightarrow>
          (a\<lparr>current_value := Some v\<rparr>, if current_value a = Some v then None else Some v))"

definition anim_stop :: "animation \<Rightarrow> animation" where
  "anim_stop a = a\<lparr>anim_state := Stopped\<rparr>"

definition anim_start :: "animation \<Rightarrow> animation \<times> real option" where
  "anim_start a =
     (case anim_state a of
        Running \<Rightarrow> (a, None)
      | Paused \<Rightarrow> (a\<lparr>anim_state := Running\<rparr>, None)
      | Stopped \<Rightarrow> recalculate (a\<lparr>anim_state := Running, progress := 0\<rparr>))"

definition setStartValue :: "animation \<Rightarrow> real \<Rightarrow> animation \<times> real option" where
  "setStartValue a v = recalculate (a\<lparr>start_value := Some v\<rparr>)"

definition setEndValue :: "animation \<Rightarrow> real \<Rightarrow> animation \<times> real option" where
  "setEndValue a v = recalculate (a\<lparr>end_value := Some v\<rparr>)"

definition anim_advance :: "animation \<Rightarrow> real \<Rightarrow> animation \<times> real option" where
  "anim_advance a t =
     (if anim_state a \<noteq> Running then (a, None)
      else
        let r = recalculate (a\<lparr>progress := t\<rparr>) in
        (if t = 1 then anim_stop (fst r) else fst r, snd r))"

text \<open>
  A decoded bitmap (\<open>QPixmap(filename)\<close>): its pixel size. Decoding a missing or
  corrupt file yields the null pixmap, of size zero. A scene item wraps a pixmap; its
  bounding rectangle is the pixmap's size, at the scene origin.
\<close>

record qpixmap =
  px_width :: nat
  px_height :: nat

definition isNull :: "qpixmap \<Rightarrow> bool" where
  "isNull px = (px_width px = 0 \<or> px_height px = 0)"

datatype item = QGraphicsPixmapItem qpixmap

fun boundingRect :: "item \<Rightarrow> real \<times> real" where
  "boundingRect (QGraphicsPixmapItem px) = (real (px_width px), real (px_height px))"

subsection \<open>The viewer state\<close>

text \<open>
  The four fields of \<open>ImageViewer.__init__\<close> (\<open>zoom_total\<close>, \<open>zoom_origin\<close>,
  \<open>zoom_scene_origin\<close>, \<open>pixmap\<close>), the animation object \<open>zoom_anim\<close>, and the state
  the widget inherits from the graphics view: the transform, the items of the scene,
  the size of the scene rectangle (which the toolkit grows to hold every item ever
  added and never shrinks; all items here sit at the scene origin), the widget's size
  and the scroll offset that the toolkit adds to a view point before mapping it to the
  scene.
\<close>

record viewer =
  zoom_total :: real
  zoom_origin :: qpoint
  zoom_scene_origin :: qpointf
  pixmap :: "item option"
  zoom_anim :: animation
  transform :: qtransform
  scene_items :: "item list"
  scene_rect :: "real \<times> real"
  width :: int
  height :: int
  scroll :: qpoint

definition init_viewer :: "int \<Rightarrow> int \<Rightarrow> viewer" where
  "init_viewer W H =
     \<lparr>zoom_total = 1, zoom_origin = (0, 0), zoom_scene_origin = (0, 0), pixmap = None,
      zoom_anim = \<lparr>anim_state = Stopped, start_value = None, end_value = None,
                   progress = 0, current_value = None\<rparr>,
      transform = qt_identity, scene_items = [], scene_rect = (0, 0),
      width = W, height = H, scroll = (0, 0)\<rparr>"

subsection \<open>Toolkit operations on the view\<close>

definition resetTransform :: "viewer \<Rightarrow> viewer" where
  "resetTransform s = s\<lparr>transform := qt_identity\<rparr>"

definition scale :: "viewer \<Rightarrow> real \<Rightarrow> real \<Rightarrow> viewer" where
  "scale s sx sy = s\<lparr>transform := qt_scale (transform s) sx sy\<rparr>"

definition translate :: "viewer \<Rightarrow> real \<Rightarrow> real \<Rightarrow> viewer" where
  "translate s x y = s\<lparr>transform := qt_translate (transform s) x y\<rparr>"

text \<open>\<open>mapToScene(QPoint)\<close>: the scroll offset is added, then the inverted transform
  is applied. The toolkit recomputes the scroll offset when the transform or the window
  changes; here it changes only by a \<open>Scroll\<close> event, so scene coordinates computed in
  this model are those of a view whose scroll offset stays put.\<close>

definition mapToScene :: "viewer \<Rightarrow> qpoint \<Rightarrow> qpointf" where
  "mapToScene s p =
     qt_map (qt_inverted (transform s))
       (real_of_int (fst p + fst (scroll s)), real_of_int (snd p + snd (scroll s)))"

definition scene_clear :: "viewer \<Rightarrow> viewer" where
  "scene_clear s = s\<lparr>scene_items := []\<rparr>"

definition scene_addItem :: "viewer \<Rightarrow> item \<Rightarrow> viewer" where
  "scene_addItem s it =
     s\<lparr>scene_items := scene_items s @ [it],
       scene_rect := (max (fst (scene_rect s)) (fst (boundingRect it)),
                      max (snd (scene_rect s)) (snd (boundingRect it)))\<rparr>"

definition sceneRect :: "viewer \<Rightarrow> real \<times> real" where
  "sceneRect s = scene_rect s"

text \<open>
  \<open>fitInView(item, KeepAspectRatio)\<close>. The toolkit first undoes the current scale,
  then scales by the smaller of the two ratios between the viewport (less a margin of
  2 on each side) and the item's rectangle. The constructor sets viewport margins of
  \<open>-2\<close>, so the viewport is 4 larger than the widget in each direction. Every
  rectangle that is empty makes the call return early.
\<close>

definition viewport_size :: "viewer \<Rightarrow> int \<times> int" where
  "viewport_size s = (width s + 4, height s + 4)"

definition fitInView :: "viewer \<Rightarrow> item \<Rightarrow> viewer" where
  "fitInView s it =
     (let rect = boundingRect it in
      if fst rect = 0 \<and> snd rect = 0 then s
      else
        let uw = \<bar>tm11 (transform s)\<bar>; uh = \<bar>tm22 (transform s)\<bar> in
        if uw \<le> 0 \<or> uh \<le> 0 then s
        else
          let s1 = scale s (1 / uw) (1 / uh);
              margin = 2;
              vw = real_of_int (fst (viewport_size s1) - 2 * margin);
              vh = real_of_int (snd (viewport_size s1) - 2 * margin) in
          if vw \<le> 0 \<or> vh \<le> 0 then s1
          else
            let sw = \<bar>tm11 (transform s1)\<bar> * fst rect;
                sh = \<bar>tm22 (transform s1)\<bar> * snd rect in
            if sw \<le> 0 \<or> sh \<le> 0 then s1
            else
              let r = min (vw / sw) (vh / sh) in scale s1 r r)"

subsection \<open>The methods of \<open>ImageViewer\<close>\<close>

definition m11 :: "viewer \<Rightarrow> real" where
  "m11 s = tm11 (transform s)"

definition ratio :: "viewer \<Rightarrow> error + real" where
  "ratio s =
     (let scene = sceneRect s in
      case py_div (real_of_int (width s)) (fst scene) of
        Inl e \<Rightarrow> Inl e
      | Inr pw \<Rightarrow>
          (case py_div (real_of_int (height s)) (snd scene) of
             Inl e \<Rightarrow> Inl e
           | Inr ph \<Rightarrow> Inr (min pw ph)))"

definition loadImage :: "viewer \<Rightarrow> qpixmap \<Rightarrow> error + viewer" where
  "loadImage s px =
     (if isNull px then Inr s
      else
        let s1 = s\<lparr>zoom_total := 1\<rparr>;
            s2 = resetTransform s1;
            s3 = scene_clear s2;
            s4 = s3\<lparr>pixmap := Some (QGraphicsPixmapItem px)\<rparr>;
            s5 = scene_addItem s4 (QGraphicsPixmapItem px) in
        case ratio s5 of
          Inl e \<Rightarrow> Inl e
        | Inr r \<Rightarrow> if r < 1 then Inr (fitInView s5 (QGraphicsPixmapItem px)) else Inr s5)"

definition on_zoom :: "viewer \<Rightarrow> real \<Rightarrow> error + viewer" where
  "on_zoom s v =
     (case py_div v (zoom_total s) of
        Inl e \<Rightarrow> Inl e
      | Inr factor \<Rightarrow>
          if factor = zoom_total s then Inr s
          else
            let s1 = s\<lparr>zoom_total := v\<rparr>;
                s2 = scale s1 factor factor;
                delta = pointf_sub (mapToScene s2 (zoom_origin s2)) (zoom_scene_origin s2) in
            Inr (translate s2 (fst delta) (snd delta)))"

text \<open>
  The constructor connects \<open>valueChanged\<close> to \<open>__on_zoom\<close>, so every animation
  operation that emits a value runs the handler before it returns. An exception raised
  by the handler is the result of the whole call.
\<close>

definition valueChanged :: "viewer \<Rightarrow> animation \<times> real option \<Rightarrow> error + viewer" where
  "valueChanged s r =
     (case snd r of
        None \<Rightarrow> Inr (s\<lparr>zoom_anim := fst r\<rparr>)
      | Some v \<Rightarrow> on_zoom (s\<lparr>zoom_anim := fst r\<rparr>) v)"

text \<open>
  \<open>zoom\<close>: \<open>stop()\<close> returns nothing, so \<open>not self.zoom_anim.stop()\<close> is true and the
  factor is multiplied by itself exactly when the animation was running before the
  stop. \<open>setStartValue\<close>, \<open>setEndValue\<close> and \<open>start\<close> may each run the handler, so the
  \<open>zoom_total\<close> read for the end value is the one left by \<open>setStartValue\<close>.
\<close>

definition zoom :: "viewer \<Rightarrow> real \<Rightarrow> error + viewer" where
  "zoom s f =
     (let running = (anim_state (zoom_anim s) = Running);
          s1 = s\<lparr>zoom_anim := anim_stop (zoom_anim s)\<rparr>;
          factor = (if True \<and> running then f * f else f) in
      case valueChanged s1 (setStartValue (zoom_anim s1) (zoom_total s1)) of
        Inl e \<Rightarrow> Inl e
      | Inr s2 \<Rightarrow>
          (case valueChanged s2
                  (setEndValue (zoom_anim s2) (max 1 (zoom_total s2 * factor))) of
             Inl e \<Rightarrow> Inl e
           | Inr s3 \<Rightarrow> valueChanged s3 (anim_start (zoom_anim s3))))"

definition wheelEvent :: "viewer \<Rightarrow> int \<Rightarrow> qpointf \<Rightarrow> error + viewer" where
  "wheelEvent s angle pos =
     (if angle < 0 \<and> zoom_total s = 1 then Inr s
      else
        let s1 = s\<lparr>zoom_origin := toPoint pos\<rparr>;
            s2 = s1\<lparr>zoom_scene_origin := mapToScene s1 (zoom_origin s1)\<rparr> in
        zoom s2 (if angle > 0 then 11 / 10 else 9 / 10))"

text \<open>\<open>resizeEvent\<close> is delivered after the toolkit has given the widget its new
  size; the inherited handler does not touch the transform.\<close>

definition resizeEvent :: "viewer \<Rightarrow> int \<Rightarrow> int \<Rightarrow> error + viewer" where
  "resizeEvent s W H =
     (let s0 = s\<lparr>width := W, height := H\<rparr> in
      case pixmap s0 of
        None \<Rightarrow> Inr s0
      | Some _ \<Rightarrow>
          (case ratio s0 of
             Inl e \<Rightarrow> Inl e
           | Inr r \<Rightarrow>
               (case py_div (r * zoom_total s0) (m11 s0) of
                  Inl e \<Rightarrow> Inl e
                | Inr factor \<Rightarrow> Inr (scale s0 factor factor))))"

subsection \<open>The event loop\<close>

text \<open>
  \<open>tick s t\<close>: the toolkit's timer advances the animation to progress \<open>t\<close>.
\<close>

definition tick :: "viewer \<Rightarrow> real \<Rightarrow> error + viewer" where
  "tick s t = valueChanged s (anim_advance (zoom_anim s) t)"

text \<open>
  What can happen to the widget: a call of \<open>loadImage\<close> with the decoded file, a wheel
  event (vertical angle delta and cursor position), a direct call of \<open>zoom\<close>, an
  animation tick, a resize to a new size, and a change of the scroll offset by the
  toolkit (hand dragging, recentring).
\<close>

datatype event =
    LoadImage qpixmap
  | WheelEvent int qpointf
  | Zoom real
  | Tick real
  | ResizeEvent int int
  | Scroll int int

fun step :: "viewer \<Rightarrow> event \<Rightarrow> error + viewer" where
  "step s (LoadImage px) = loadImage s px"
| "step s (WheelEvent angle pos) = wheelEvent s angle pos"
| "step s (Zoom f) = zoom s f"
| "step s (Tick t) = tick s t"
| "step s (ResizeEvent W H) = resizeEvent s W H"
| "step s (Scroll x y) = Inr (s\<lparr>scroll := (x, y)\<rparr>)"

fun run :: "viewer \<Rightarrow> event list \<Rightarrow> error + viewer" where
  "run s [] = Inr s"
| "run s (e # es) = (case step s e of Inl err \<Rightarrow> Inl err | Inr s' \<Rightarrow> run s' es)"

text \<open>What a run leaves of the zoom: the cumulative zoom and the animation.\<close>

definition zoom_state :: "error + viewer \<Rightarrow> (real \<times> animation) option" where
  "zoom_state r = (case r of Inl _ \<Rightarrow> None | Inr s \<Rightarrow> Some (zoom_total s, zoom_anim s))"

text \<open>The events the toolkit can deliver: a progress lies between 0 and 1, a window
  has a positive size.\<close>

fun event_ok :: "event \<Rightarrow> bool" where
  "event_ok (Tick t) = (0 \<le> t \<and> t \<le> 1)"
| "event_ok (ResizeEvent W H) = (0 < W \<and> 0 < H)"
| "event_ok _ = True"

text \<open>
  The invariant that every run maintains. For the viewer: the cumulative zoom is at
  least 1, the scale coefficients are positive, and the scene rectangle is not empty
  once an image is loaded. For the animation: the progress lies between 0 and 1, the key
  values are at least 1 and are set together, the current value is the interpolated
  one, the animation is never paused, a stopped animation is either fresh or at its
  end, and a running animation has its key values set.
\<close>

definition anim_values_ge1 :: "animation \<Rightarrow> bool" where
  "anim_values_ge1 a =
     ((case start_value a of None \<Rightarrow> True | Some v \<Rightarrow> 1 \<le> v) \<and>
      (case end_value a of None \<Rightarrow> True | Some v \<Rightarrow> 1 \<le> v))"

definition core_inv :: "viewer \<Rightarrow> bool" where
  "core_inv s =
     (1 \<le> zoom_total s \<and> 0 < tm11 (transform s) \<and> 0 < tm22 (transform s) \<and>
      (pixmap s \<noteq> None \<longrightarrow> 0 < fst (scene_rect s) \<and> 0 < snd (scene_rect s)))"

definition anim_wf :: "animation \<Rightarrow> bool" where
  "anim_wf a =
     (0 \<le> progress a \<and> progress a \<le> 1 \<and> anim_values_ge1 a \<and>
      anim_state a \<noteq> Paused \<and>
      (start_value a = None \<longleftrightarrow> end_value a = None) \<and>
      current_value a = interpolated a (progress a) \<and>
      (anim_state a = Stopped \<and> end_value a \<noteq> None \<longrightarrow> progress a = 1) \<and>
      (anim_state a = Running \<longrightarrow> end_value a \<noteq> None))"

definition viewer_inv :: "viewer \<Rightarrow> bool" where
  "viewer_inv s = (core_inv s \<and> anim_wf (zoom_anim s))"

section \<open>Properties\<close>

lemmas qt_defs = qt_identity_def qt_scale_def qt_translate_def qt_map_def qt_inverted_def
lemmas anim_defs = anim_stop_def anim_start_def setStartValue_def setEndValue_def
  anim_advance_def recalculate_def
lemmas view_defs = resetTransform_def scale_def translate_def scene_clear_def
  scene_addItem_def sceneRect_def viewport_size_def m11_def
lemmas eval_defs = init_viewer_def loadImage_def isNull_def ratio_def py_div_def on_zoom_def
  valueChanged_def zoom_def wheelEvent_def resizeEvent_def tick_def interpolated_def
  mapToScene_def fitInView_def pointf_sub_def toPoint_def qRound_def Let_def

subsection \<open>The invariant of the event loop\<close>

text \<open>
  Every method keeps \<open>viewer_inv\<close>, also through the calls of the tick handler that the
  animation makes while \<open>zoom\<close> runs. Under this invariant no division of the program
  has a zero divisor, so no event raises.
\<close>

lemma interpolated_ge1:
  assumes "anim_values_ge1 a" "0 \<le> t" "t \<le> 1" "interpolated a t = Some v"
  shows "1 \<le> v"
proof -
  from assms(4) obtain v0 v1 where a: "start_value a = Some v0" "end_value a = Some v1"
    and v: "v = v0 + (v1 - v0) * t"
    by (auto simp: interpolated_def split: option.splits)
  from assms(1) a have ge: "1 \<le> v0" "1 \<le> v1" by (simp_all add: anim_values_ge1_def)
  have "v - 1 = (1 - t) * (v0 - 1) + t * (v1 - 1)" unfolding v by (simp add: algebra_simps)
  moreover have "0 \<le> (1 - t) * (v0 - 1)" using assms(3) ge by simp
  moreover have "0 \<le> t * (v1 - 1)" using assms(2) ge by simp
  ultimately show ?thesis by linarith
qed

lemma fitInView_fresh:
  assumes "transform s = qt_identity" "0 < fst (boundingRect it)" "0 < snd (boundingRect it)"
  shows "fitInView s it =
     (if 0 < width s \<and> 0 < height s
      then s\<lparr>transform := qt_scale qt_identity
               (min (real_of_int (width s) / fst (boundingRect it))
                    (real_of_int (height s) / snd (boundingRect it)))
               (min (real_of_int (width s) / fst (boundingRect it))
                    (real_of_int (height s) / snd (boundingRect it)))\<rparr>
      else s)"
  using assms
  by (auto simp: fitInView_def Let_def view_defs qt_defs not_le not_less)

lemma fitInView_pos:
  assumes "0 < tm11 (transform s)" "0 < tm22 (transform s)"
  shows "0 < tm11 (transform (fitInView s it)) \<and> 0 < tm22 (transform (fitInView s it))"
  using assms
  by (auto simp: fitInView_def Let_def view_defs qt_defs not_le min_def)

lemma fitInView_fields:
  "zoom_total (fitInView s it) = zoom_total s"
  "pixmap (fitInView s it) = pixmap s"
  "zoom_anim (fitInView s it) = zoom_anim s"
  "scene_rect (fitInView s it) = scene_rect s"
  "scene_items (fitInView s it) = scene_items s"
  "width (fitInView s it) = width s"
  "height (fitInView s it) = height s"
  by (simp_all add: fitInView_def Let_def view_defs)

lemma loadImage_core:
  assumes "core_inv s"
  shows "\<exists>s'. loadImage s px = Inr s' \<and> core_inv s' \<and> zoom_anim s' = zoom_anim s"
proof (cases "isNull px")
  case True
  then show ?thesis using assms by (simp add: loadImage_def)
next
  case False
  then have pos: "0 < px_width px" "0 < px_height px" by (simp_all add: isNull_def)
  define s5 where "s5 = scene_addItem ((scene_clear (resetTransform (s\<lparr>zoom_total := 1\<rparr>)))
      \<lparr>pixmap := Some (QGraphicsPixmapItem px)\<rparr>) (QGraphicsPixmapItem px)"
  have rect: "0 < fst (scene_rect s5)" "0 < snd (scene_rect s5)"
    using pos by (simp_all add: s5_def view_defs max_def)
  then obtain r where r: "ratio s5 = Inr r"
    by (auto simp: ratio_def py_div_def sceneRect_def Let_def)
  have inv5: "core_inv s5" "zoom_anim s5 = zoom_anim s"
    using pos by (simp_all add: core_inv_def s5_def view_defs qt_defs max_def)
  have inv_fit: "core_inv (fitInView s5 (QGraphicsPixmapItem px))"
    using inv5 fitInView_pos[of s5 "QGraphicsPixmapItem px"]
    by (simp add: core_inv_def fitInView_fields)
  have "loadImage s px = (if r < 1 then Inr (fitInView s5 (QGraphicsPixmapItem px)) else Inr s5)"
    using False r by (simp add: loadImage_def Let_def s5_def)
  then show ?thesis using inv5 inv_fit by (auto simp: fitInView_fields)
qed

lemma on_zoom_core:
  assumes "core_inv s" "1 \<le> v"
  shows "\<exists>s'. on_zoom s v = Inr s' \<and> core_inv s' \<and> zoom_anim s' = zoom_anim s \<and>
     zoom_origin s' = zoom_origin s \<and> zoom_scene_origin s' = zoom_scene_origin s \<and>
     zoom_total s' = (if v / zoom_total s = zoom_total s then zoom_total s else v)"
proof -
  from assms(1) have z: "1 \<le> zoom_total s" and m: "0 < tm11 (transform s)" "0 < tm22 (transform s)"
    by (simp_all add: core_inv_def)
  then have f: "0 < v / zoom_total s" using assms(2) by simp
  show ?thesis
    using assms z m f
    by (auto simp: on_zoom_def py_div_def Let_def core_inv_def view_defs qt_scale_def qt_translate_def)
qed

lemma recalculate_fst:
  "fst (recalculate a) =
     a\<lparr>current_value := (case interpolated a (progress a) of None \<Rightarrow> current_value a | Some v \<Rightarrow> Some v)\<rparr>"
  by (simp add: recalculate_def split: option.splits)

lemma recalculate_snd:
  "snd (recalculate a) =
     (case interpolated a (progress a) of None \<Rightarrow> None
      | Some v \<Rightarrow> if current_value a = Some v then None else Some v)"
  by (simp add: recalculate_def split: option.splits)

lemma recalculate_ge1:
  assumes "anim_values_ge1 a" "0 \<le> progress a" "progress a \<le> 1" "snd (recalculate a) = Some v"
  shows "1 \<le> v"
proof -
  from assms(4) have "interpolated a (progress a) = Some v"
    by (auto simp: recalculate_snd split: option.splits if_splits)
  with assms(1-3) show ?thesis by (rule interpolated_ge1)
qed

lemma valueChanged_core:
  assumes "core_inv s" "\<And>v. snd r = Some v \<Longrightarrow> 1 \<le> v"
  shows "\<exists>s'. valueChanged s r = Inr s' \<and> core_inv s' \<and> zoom_anim s' = fst r \<and>
     zoom_origin s' = zoom_origin s \<and> zoom_scene_origin s' = zoom_scene_origin s \<and>
     zoom_total s' =
       (case snd r of None \<Rightarrow> zoom_total s
        | Some v \<Rightarrow> if v / zoom_total s = zoom_total s then zoom_total s else v)"
proof (cases "snd r")
  case None
  then show ?thesis using assms(1) by (simp add: valueChanged_def core_inv_def)
next
  case (Some v)
  have c: "core_inv (s\<lparr>zoom_anim := fst r\<rparr>)" using assms(1) by (simp add: core_inv_def)
  from on_zoom_core[OF c assms(2)[OF Some]] Some show ?thesis
    by (auto simp: valueChanged_def)
qed

lemma zoom_result:
  assumes c: "core_inv s" and p: "0 \<le> progress (zoom_anim s)" "progress (zoom_anim s) \<le> 1"
    and g: "anim_values_ge1 (zoom_anim s)"
  shows "\<exists>s' Z. zoom s f = Inr s' \<and> core_inv s' \<and> 1 \<le> Z \<and>
     Z = (case snd (setStartValue (anim_stop (zoom_anim s)) (zoom_total s)) of
            None \<Rightarrow> zoom_total s
          | Some v \<Rightarrow> if v / zoom_total s = zoom_total s then zoom_total s else v) \<and>
     zoom_anim s' =
       \<lparr>anim_state = Running, start_value = Some (zoom_total s),
        end_value = Some (max 1 (Z * (if anim_state (zoom_anim s) = Running then f * f else f))),
        progress = 0, current_value = Some (zoom_total s)\<rparr> \<and>
     zoom_origin s' = zoom_origin s \<and> zoom_scene_origin s' = zoom_scene_origin s"
proof -
  let ?z = "zoom_total s"
  let ?fac = "if anim_state (zoom_anim s) = Running then f * f else f"
  from c have z1: "1 \<le> ?z" by (simp add: core_inv_def)
  define s1 where "s1 = s\<lparr>zoom_anim := anim_stop (zoom_anim s)\<rparr>"
  have c1: "core_inv s1" using c by (simp add: s1_def core_inv_def)
  define r2 where "r2 = setStartValue (zoom_anim s1) (zoom_total s1)"
  have r2: "r2 = recalculate ((anim_stop (zoom_anim s))\<lparr>start_value := Some ?z\<rparr>)"
    by (simp add: r2_def s1_def setStartValue_def)
  have e2: "1 \<le> v" if "snd r2 = Some v" for v
    using that unfolding r2
    by (rule recalculate_ge1[rotated 3])
       (use g p z1 in \<open>simp_all add: anim_values_ge1_def anim_stop_def\<close>)
  have f1: "zoom_origin s1 = zoom_origin s" "zoom_scene_origin s1 = zoom_scene_origin s"
    "zoom_total s1 = ?z"
    by (simp_all add: s1_def)
  from valueChanged_core[of s1 r2, OF c1 e2] obtain s2 where s2:
    "valueChanged s1 r2 = Inr s2" "core_inv s2" "zoom_anim s2 = fst r2"
    "zoom_origin s2 = zoom_origin s" "zoom_scene_origin s2 = zoom_scene_origin s"
    "zoom_total s2 = (case snd r2 of None \<Rightarrow> ?z | Some v \<Rightarrow> if v / ?z = ?z then ?z else v)"
    unfolding f1 by blast
  let ?Z = "zoom_total s2"
  from s2(2) have Z1: "1 \<le> ?Z" by (simp add: core_inv_def)
  let ?E = "max 1 (?Z * ?fac)"
  have a2: "anim_state (zoom_anim s2) = Stopped" "start_value (zoom_anim s2) = Some ?z"
    "end_value (zoom_anim s2) = end_value (zoom_anim s)" "progress (zoom_anim s2) = progress (zoom_anim s)"
    by (simp_all add: s2(3) r2 recalculate_fst anim_stop_def)
  define r3 where "r3 = setEndValue (zoom_anim s2) ?E"
  have r3: "r3 = recalculate ((zoom_anim s2)\<lparr>end_value := Some ?E\<rparr>)"
    by (simp add: r3_def setEndValue_def)
  have e3: "1 \<le> v" if "snd r3 = Some v" for v
    using that unfolding r3
    by (rule recalculate_ge1[rotated 3])
       (use a2 p z1 in \<open>simp_all add: anim_values_ge1_def\<close>)
  from valueChanged_core[of s2 r3, OF s2(2) e3] obtain s3 where s3:
    "valueChanged s2 r3 = Inr s3" "core_inv s3" "zoom_anim s3 = fst r3"
    "zoom_origin s3 = zoom_origin s2" "zoom_scene_origin s3 = zoom_scene_origin s2"
    by blast
  have a3: "anim_state (zoom_anim s3) = Stopped" "start_value (zoom_anim s3) = Some ?z"
    "end_value (zoom_anim s3) = Some ?E"
    by (simp_all add: s3(3) r3 recalculate_fst a2)
  define r4 where "r4 = anim_start (zoom_anim s3)"
  have r4: "r4 = recalculate ((zoom_anim s3)\<lparr>anim_state := Running, progress := 0\<rparr>)"
    by (simp add: r4_def anim_start_def a3)
  have e4: "1 \<le> v" if "snd r4 = Some v" for v
    using that unfolding r4
    by (rule recalculate_ge1[rotated 3])
       (use a3 z1 in \<open>simp_all add: anim_values_ge1_def\<close>)
  from valueChanged_core[of s3 r4, OF s3(2) e4] obtain s4 where s4:
    "valueChanged s3 r4 = Inr s4" "core_inv s4" "zoom_anim s4 = fst r4"
    "zoom_origin s4 = zoom_origin s3" "zoom_scene_origin s4 = zoom_scene_origin s3"
    by blast
  have a4: "zoom_anim s4 =
       \<lparr>anim_state = Running, start_value = Some ?z, end_value = Some ?E,
        progress = 0, current_value = Some ?z\<rparr>"
    by (simp add: s4(3) r4 recalculate_fst a3 interpolated_def)
  have zm: "zoom s f = Inr s4"
    using s2(1) s3(1) s4(1)
    by (simp add: zoom_def Let_def s1_def[symmetric] r2_def[symmetric] r3_def[symmetric]
        r4_def[symmetric])
  have Zeq: "?Z = (case snd (setStartValue (anim_stop (zoom_anim s)) ?z) of
            None \<Rightarrow> ?z | Some v \<Rightarrow> if v / ?z = ?z then ?z else v)"
    using s2(6) by (simp add: r2 setStartValue_def)
  show ?thesis
    using zm s4(2) Z1 Zeq a4 s4(4,5) s3(4,5) s2(4,5) by auto
qed

lemma zoom_inv:
  assumes "viewer_inv s"
  shows "\<exists>s'. zoom s f = Inr s' \<and> viewer_inv s'"
proof -
  from assms have c: "core_inv s" and w: "anim_wf (zoom_anim s)" by (simp_all add: viewer_inv_def)
  from c have z1: "1 \<le> zoom_total s" by (simp add: core_inv_def)
  from w have p: "0 \<le> progress (zoom_anim s)" "progress (zoom_anim s) \<le> 1"
    and g: "anim_values_ge1 (zoom_anim s)" by (simp_all add: anim_wf_def)
  from zoom_result[OF c p g, of f] obtain s' Z where r: "zoom s f = Inr s'" "core_inv s'"
    "zoom_anim s' =
       \<lparr>anim_state = Running, start_value = Some (zoom_total s),
        end_value = Some (max 1 (Z * (if anim_state (zoom_anim s) = Running then f * f else f))),
        progress = 0, current_value = Some (zoom_total s)\<rparr>"
    by blast
  have "anim_wf (zoom_anim s')"
    using z1 by (simp add: r(3) anim_wf_def anim_values_ge1_def interpolated_def)
  with r show ?thesis by (simp add: viewer_inv_def)
qed

lemma wheelEvent_inv:
  assumes "viewer_inv s"
  shows "\<exists>s'. wheelEvent s angle pos = Inr s' \<and> viewer_inv s'"
proof (cases "angle < 0 \<and> zoom_total s = 1")
  case True
  then show ?thesis using assms by (simp add: wheelEvent_def)
next
  case False
  have "viewer_inv (s\<lparr>zoom_origin := p, zoom_scene_origin := q\<rparr>)" for p q
    using assms by (simp add: viewer_inv_def core_inv_def)
  from zoom_inv[OF this] show ?thesis
    unfolding wheelEvent_def Let_def if_not_P[OF False] by blast
qed

lemma tick_inv:
  assumes "viewer_inv s" "0 \<le> t" "t \<le> 1"
  shows "\<exists>s'. tick s t = Inr s' \<and> viewer_inv s'"
proof (cases "anim_state (zoom_anim s) = Running")
  case False
  then show ?thesis using assms(1)
    by (simp add: tick_def anim_advance_def valueChanged_def)
next
  case True
  from assms(1) have c: "core_inv s" and w: "anim_wf (zoom_anim s)"
    by (simp_all add: viewer_inv_def)
  let ?a = "(zoom_anim s)\<lparr>progress := t\<rparr>"
  define r where "r = anim_advance (zoom_anim s) t"
  have r: "fst r = (if t = 1 then anim_stop (fst (recalculate ?a)) else fst (recalculate ?a))"
    "snd r = snd (recalculate ?a)"
    using True by (simp_all add: r_def anim_advance_def Let_def)
  have e: "1 \<le> v" if "snd r = Some v" for v
    using that unfolding r(2)
    by (rule recalculate_ge1[rotated 3]) (use w assms(2,3) in \<open>simp_all add: anim_wf_def anim_values_ge1_def\<close>)
  from valueChanged_core[of s r, OF c e] obtain s' where s':
    "valueChanged s r = Inr s'" "core_inv s'" "zoom_anim s' = fst r"
    by blast
  have "anim_wf (fst r)"
    using w True assms(2,3)
    by (auto simp: r(1) recalculate_fst anim_wf_def anim_values_ge1_def anim_stop_def
        interpolated_def split: option.splits)
  with s' show ?thesis by (simp add: tick_def r_def viewer_inv_def)
qed

lemma resizeEvent_loaded:
  assumes "pixmap s \<noteq> None" "tm11 (transform s) \<noteq> 0"
    "fst (scene_rect s) \<noteq> 0" "snd (scene_rect s) \<noteq> 0"
  shows "resizeEvent s W H =
     Inr (scale (s\<lparr>width := W, height := H\<rparr>)
        (min (real_of_int W / fst (scene_rect s)) (real_of_int H / snd (scene_rect s))
           * zoom_total s / tm11 (transform s))
        (min (real_of_int W / fst (scene_rect s)) (real_of_int H / snd (scene_rect s))
           * zoom_total s / tm11 (transform s)))"
  using assms
  by (auto simp: resizeEvent_def ratio_def py_div_def Let_def sceneRect_def m11_def)

lemma resizeEvent_inv:
  assumes "viewer_inv s" "0 < W" "0 < H"
  shows "\<exists>s'. resizeEvent s W H = Inr s' \<and> viewer_inv s'"
proof (cases "pixmap s")
  case None
  then show ?thesis using assms(1) by (simp add: resizeEvent_def viewer_inv_def core_inv_def)
next
  case (Some it)
  from assms(1) Some have p: "1 \<le> zoom_total s" "0 < tm11 (transform s)" "0 < tm22 (transform s)"
    "0 < fst (scene_rect s)" "0 < snd (scene_rect s)"
    by (simp_all add: viewer_inv_def core_inv_def)
  let ?r = "min (real_of_int W / fst (scene_rect s)) (real_of_int H / snd (scene_rect s))"
  have r: "0 < ?r" using assms(2,3) p by simp
  then have f: "0 < ?r * zoom_total s / tm11 (transform s)"
    using p by simp
  have "resizeEvent s W H =
     Inr (scale (s\<lparr>width := W, height := H\<rparr>) (?r * zoom_total s / tm11 (transform s))
        (?r * zoom_total s / tm11 (transform s)))"
    using resizeEvent_loaded[of s W H] Some p by simp
  moreover have "viewer_inv (scale (s\<lparr>width := W, height := H\<rparr>) k k)" if "0 < k" for k
    using assms(1) that p Some by (simp add: viewer_inv_def core_inv_def scale_def qt_scale_def)
  ultimately show ?thesis using f by simp
qed

lemma loadImage_inv:
  assumes "viewer_inv s"
  shows "\<exists>s'. loadImage s px = Inr s' \<and> viewer_inv s'"
  using loadImage_core[of s px] assms by (auto simp: viewer_inv_def)

lemma step_inv:
  assumes "viewer_inv s" "event_ok e"
  shows "\<exists>s'. step s e = Inr s' \<and> viewer_inv s'"
proof (cases e)
  case (LoadImage px) then show ?thesis using loadImage_inv[OF assms(1)] by simp
next
  case (WheelEvent a p) then show ?thesis using wheelEvent_inv[OF assms(1)] by simp
next
  case (Zoom f) then show ?thesis using zoom_inv[OF assms(1)] by simp
next
  case (Tick t) then show ?thesis using tick_inv[OF assms(1)] assms(2) by simp
next
  case (ResizeEvent W H) then show ?thesis using resizeEvent_inv[OF assms(1)] assms(2) by simp
next
  case (Scroll x y) then show ?thesis using assms(1) by (simp add: viewer_inv_def core_inv_def)
qed

lemma run_inv:
  assumes "viewer_inv s" "list_all event_ok evs"
  shows "\<exists>s'. run s evs = Inr s' \<and> viewer_inv s'"
  using assms
proof (induction evs arbitrary: s)
  case Nil
  then show ?case by simp
next
  case (Cons e es)
  then obtain s1 where s1: "step s e = Inr s1" "viewer_inv s1"
    using step_inv[of s e] by auto
  with Cons show ?case by simp
qed

lemma init_inv: "viewer_inv (init_viewer W H)"
  by (simp add: viewer_inv_def core_inv_def anim_wf_def init_viewer_def qt_identity_def
      anim_values_ge1_def interpolated_def)

lemma reachable_inv:
  assumes "list_all event_ok evs" "run (init_viewer W H) evs = Inr s"
  shows "viewer_inv s"
  using run_inv[OF init_inv assms(1), of W H] assms(2) by simp

subsection \<open>The animation inside \<open>zoom\<close>\<close>

text \<open>
  What \<open>setStartValue\<close> emits in \<open>zoom\<close>: nothing when the animation is fresh or at its
  end, and otherwise the value interpolated between the new start value and the old end
  value at the progress where the animation was stopped, unless that is the value the
  animation already had. The handler never moves the zoom anchor.
\<close>

lemma idle_no_emit:
  assumes "anim_wf a" "anim_state a \<noteq> Running"
  shows "snd (setStartValue (anim_stop a) z) = None"
proof (cases "end_value a")
  case None
  then show ?thesis
    by (simp add: setStartValue_def recalculate_snd interpolated_def anim_stop_def)
next
  case (Some e)
  from assms have st: "anim_state a = Stopped" by (cases "anim_state a") (simp_all add: anim_wf_def)
  with assms(1) Some have p: "progress a = 1" by (simp add: anim_wf_def)
  from assms(1) Some obtain v0 where v0: "start_value a = Some v0"
    by (cases "start_value a") (simp_all add: anim_wf_def)
  from assms(1) have "current_value a = interpolated a (progress a)" by (simp add: anim_wf_def)
  then have "current_value a = Some e" by (simp add: interpolated_def v0 Some p)
  then show ?thesis
    by (simp add: setStartValue_def recalculate_snd interpolated_def anim_stop_def Some p)
qed

lemma running_emit:
  assumes "end_value a = Some e"
  shows "snd (setStartValue (anim_stop a) z) =
     (if current_value a = Some (z + (e - z) * progress a) then None
      else Some (z + (e - z) * progress a))"
  using assms
  by (simp add: setStartValue_def recalculate_snd interpolated_def anim_stop_def)

lemma mapToScene_anchor_upd [simp]:
  "mapToScene (s\<lparr>zoom_origin := p\<rparr>) q = mapToScene s q"
  by (simp add: mapToScene_def)

lemma on_zoom_anchors:
  "on_zoom s v = Inr s' \<Longrightarrow>
     zoom_origin s' = zoom_origin s \<and> zoom_scene_origin s' = zoom_scene_origin s"
  by (auto simp: on_zoom_def py_div_def Let_def scale_def translate_def split: if_splits)

lemma valueChanged_anchors:
  "valueChanged s r = Inr s' \<Longrightarrow>
     zoom_origin s' = zoom_origin s \<and> zoom_scene_origin s' = zoom_scene_origin s"
  by (cases "snd r") (auto simp: valueChanged_def dest: on_zoom_anchors)

lemma zoom_anchors:
  assumes "zoom s f = Inr s'"
  shows "zoom_origin s' = zoom_origin s \<and> zoom_scene_origin s' = zoom_scene_origin s"
proof -
  define s1 where "s1 = s\<lparr>zoom_anim := anim_stop (zoom_anim s)\<rparr>"
  from assms obtain s2 s3 where
    "valueChanged s1 (setStartValue (zoom_anim s1) (zoom_total s1)) = Inr s2"
    "valueChanged s2 (setEndValue (zoom_anim s2)
        (max 1 (zoom_total s2 * (if True \<and> anim_state (zoom_anim s) = Running then f * f else f))))
      = Inr s3"
    "valueChanged s3 (anim_start (zoom_anim s3)) = Inr s'"
    by (auto simp: zoom_def Let_def s1_def split: sum.splits)
  from this[THEN valueChanged_anchors] show ?thesis by (simp add: s1_def)
qed

subsection \<open>The claims\<close>

text \<open>
  C1. The cumulative zoom never drops below 1: after every sequence of events that the
  toolkit can deliver (image loads, wheel events, calls of \<open>zoom\<close> with any factor,
  animation ticks, resizes, scrolling), the run has not raised and \<open>zoom_total\<close> is at
  least 1. Every prefix of such a sequence is such a sequence, so this holds at every
  moment of the run. The run includes the calls of the tick handler made inside
  \<open>zoom\<close> by \<open>setStartValue\<close>, \<open>setEndValue\<close> and \<open>start\<close>.
\<close>

theorem zoom_total_floor:
  assumes "list_all event_ok evs"
  shows "\<exists>s. run (init_viewer W H) evs = Inr s \<and> 1 \<le> zoom_total s"
  using run_inv[OF init_inv assms, of W H] by (auto simp: viewer_inv_def core_inv_def)

theorem zoom_total_floor_witness:
  "list_all event_ok [LoadImage \<lparr>px_width = 1400, px_height = 960\<rparr>, WheelEvent 120 (100, 100),
      Tick (1 / 2), WheelEvent (- 120) (100, 100), Tick 1, WheelEvent (- 120) (100, 100),
      Zoom (1 / 4), Tick 1] \<and>
   (\<exists>s. run (init_viewer 700 480) [LoadImage \<lparr>px_width = 1400, px_height = 960\<rparr>,
      WheelEvent 120 (100, 100), Tick (1 / 2), WheelEvent (- 120) (100, 100), Tick 1,
      WheelEvent (- 120) (100, 100), Zoom (1 / 4), Tick 1] = Inr s \<and> 1 \<le> zoom_total s)"
  using zoom_total_floor[of "[LoadImage \<lparr>px_width = 1400, px_height = 960\<rparr>,
      WheelEvent 120 (100, 100), Tick (1 / 2), WheelEvent (- 120) (100, 100), Tick 1,
      WheelEvent (- 120) (100, 100), Zoom (1 / 4), Tick 1]" 700 480]
  by simp

text \<open>
  C2. The claim is that after every tick whose value differs from the cumulative zoom the
  anchor view point maps back to the stored anchor scene point. The run below zooms in
  twice at the view point (100, 100) and resizes the window while the second animation
  is running. The animation then delivers its end value 1.21 while the cumulative zoom
  is 1.1: the value differs from the cumulative zoom, but the factor 1.21 / 1.1 equals
  the cumulative zoom, so the handler returns early; the anchor view point maps to the
  scene point (100, 100), not to the stored (200, 200).
\<close>

theorem on_zoom_guard_loses_anchor:
  "\<exists>s. run (init_viewer 700 480)
          [LoadImage \<lparr>px_width = 1400, px_height = 960\<rparr>, WheelEvent 120 (100, 100), Tick 1,
           WheelEvent 120 (100, 100), ResizeEvent 1400 960] = Inr s \<and>
     anim_state (zoom_anim s) = Running \<and> interpolated (zoom_anim s) 1 = Some (121 / 100) \<and>
     zoom_total s = 11 / 10 \<and> (121 / 100 :: real) \<noteq> zoom_total s \<and>
     on_zoom s (121 / 100) = Inr s \<and>
     zoom_origin s = (100, 100) \<and> zoom_scene_origin s = (200, 200) \<and>
     mapToScene s (zoom_origin s) = (100, 100) \<and>
     mapToScene s (zoom_origin s) \<noteq> zoom_scene_origin s"
  by (simp add: eval_defs view_defs qt_defs anim_defs)

text \<open>
  C3. After any run of deliverable events, a call of \<open>zoom\<close> while the animation is
  running returns, has the effect of a call with the factor \<open>f * f\<close> on the stopped
  animation, and leaves the animation running from progress 0 with the cumulative zoom
  of the call as start value and current value. The factor used is the requested factor
  multiplied by itself. The cumulative zoom it multiplies is the one left by
  \<open>setStartValue\<close>: the value interpolated between the cumulative zoom and the old end
  value at the progress of the stopped animation, if that value is new to the animation
  and the handler applies it, and the cumulative zoom of the call otherwise.
\<close>

theorem zoom_running_squares:
  assumes "list_all event_ok evs" "run (init_viewer W H) evs = Inr s"
    "anim_state (zoom_anim s) = Running"
  shows "\<exists>s' e. zoom s f = Inr s' \<and>
    zoom s f = zoom (s\<lparr>zoom_anim := anim_stop (zoom_anim s)\<rparr>) (f * f) \<and>
    end_value (zoom_anim s) = Some e \<and>
    anim_state (zoom_anim s') = Running \<and>
    progress (zoom_anim s') = 0 \<and>
    current_value (zoom_anim s') = Some (zoom_total s) \<and>
    start_value (zoom_anim s') = Some (zoom_total s) \<and>
    end_value (zoom_anim s') =
      Some (max 1
        ((if current_value (zoom_anim s)
               \<noteq> Some (zoom_total s + (e - zoom_total s) * progress (zoom_anim s)) \<and>
             (zoom_total s + (e - zoom_total s) * progress (zoom_anim s)) / zoom_total s
               \<noteq> zoom_total s
          then zoom_total s + (e - zoom_total s) * progress (zoom_anim s)
          else zoom_total s) * (f * f)))"
proof -
  from reachable_inv[OF assms(1,2)] have c: "core_inv s" and w: "anim_wf (zoom_anim s)"
    by (simp_all add: viewer_inv_def)
  from w have p: "0 \<le> progress (zoom_anim s)" "progress (zoom_anim s) \<le> 1"
    and g: "anim_values_ge1 (zoom_anim s)" by (simp_all add: anim_wf_def)
  from w assms(3) obtain e where e: "end_value (zoom_anim s) = Some e"
    by (cases "end_value (zoom_anim s)") (simp_all add: anim_wf_def)
  from zoom_result[OF c p g, of f] obtain s' Z where r: "zoom s f = Inr s'"
    "Z = (case snd (setStartValue (anim_stop (zoom_anim s)) (zoom_total s)) of
            None \<Rightarrow> zoom_total s
          | Some v \<Rightarrow> if v / zoom_total s = zoom_total s then zoom_total s else v)"
    "zoom_anim s' =
       \<lparr>anim_state = Running, start_value = Some (zoom_total s),
        end_value = Some (max 1 (Z * (if anim_state (zoom_anim s) = Running then f * f else f))),
        progress = 0, current_value = Some (zoom_total s)\<rparr>"
    by blast
  have same: "zoom s f = zoom (s\<lparr>zoom_anim := anim_stop (zoom_anim s)\<rparr>) (f * f)"
    using assms(3) by (simp add: zoom_def Let_def anim_stop_def)
  have Z: "Z = (if current_value (zoom_anim s)
               \<noteq> Some (zoom_total s + (e - zoom_total s) * progress (zoom_anim s)) \<and>
             (zoom_total s + (e - zoom_total s) * progress (zoom_anim s)) / zoom_total s
               \<noteq> zoom_total s
          then zoom_total s + (e - zoom_total s) * progress (zoom_anim s)
          else zoom_total s)"
    unfolding r(2) running_emit[OF e] by simp
  show ?thesis
  proof (rule exI[of _ s'], rule exI[of _ e], intro conjI)
    show "zoom s f = Inr s'" by (rule r(1))
    show "zoom s f = zoom (s\<lparr>zoom_anim := anim_stop (zoom_anim s)\<rparr>) (f * f)" by (rule same)
    show "end_value (zoom_anim s) = Some e" by (rule e)
  qed (simp_all add: r(3) assms(3) Z)
qed

theorem zoom_running_squares_witness:
  "list_all event_ok [Zoom 2, Tick (1 / 2)] \<and>
   (\<exists>s. run (init_viewer 700 480) [Zoom 2, Tick (1 / 2)] = Inr s \<and>
      anim_state (zoom_anim s) = Running \<and> zoom_total s = 3 / 2 \<and>
      (\<exists>s'. zoom s 2 = Inr s' \<and> start_value (zoom_anim s') = Some (3 / 2) \<and>
         end_value (zoom_anim s') = Some 7))"
proof -
  obtain s where s: "run (init_viewer 700 480) [Zoom 2, Tick (1 / 2)] = Inr s"
    "anim_state (zoom_anim s) = Running" "zoom_total s = 3 / 2" "end_value (zoom_anim s) = Some 2"
    "progress (zoom_anim s) = 1 / 2" "current_value (zoom_anim s) = Some (3 / 2)"
    by (simp add: eval_defs view_defs qt_defs anim_defs)
  have ok: "list_all event_ok [Zoom 2, Tick (1 / 2)]" by simp
  from zoom_running_squares[OF ok s(1) s(2), of 2] s(3-6)
  have "\<exists>s'. zoom s 2 = Inr s' \<and> start_value (zoom_anim s') = Some (3 / 2) \<and>
         end_value (zoom_anim s') = Some 7"
    by auto
  with ok s show ?thesis by blast
qed

text \<open>
  C3, as stated with the factor doubled, fails: a second call with factor 1.1 while the
  first animation runs at cumulative zoom 1 targets 1.21, not 2.2.
\<close>

theorem zoom_running_doubles_counterexample:
  "zoom_state (run (init_viewer 700 480) [Zoom (11 / 10)]) =
     Some (1, \<lparr>anim_state = Running, start_value = Some 1, end_value = Some (11 / 10),
               progress = 0, current_value = Some 1\<rparr>) \<and>
   zoom_state (run (init_viewer 700 480) [Zoom (11 / 10), Zoom (11 / 10)]) =
     Some (1, \<lparr>anim_state = Running, start_value = Some 1, end_value = Some (121 / 100),
               progress = 0, current_value = Some 1\<rparr>) \<and>
   (121 / 100 :: real) \<noteq> max 1 (1 * (2 * (11 / 10)))"
  by (simp add: zoom_state_def eval_defs view_defs qt_defs anim_defs)

text \<open>
  C4. The claim is that the handler leaves the state unchanged exactly when
  \<open>v / zoom_total = 1\<close>. After an image is loaded and \<open>zoom(2)\<close> has run to its end, the
  cumulative zoom is 2; a second \<open>zoom(2)\<close> animates from 2 to 4, and when the value 4
  is delivered the factor is \<open>4 / 2 = 2\<close>, which equals the cumulative zoom: the handler
  returns early and the state is unchanged, although \<open>v / zoom_total\<close> is not 1.
\<close>

theorem on_zoom_guard_skips_real_step:
  "\<exists>s. run (init_viewer 700 480)
          [LoadImage \<lparr>px_width = 1400, px_height = 960\<rparr>, Zoom 2, Tick 1, Zoom 2] = Inr s \<and>
     zoom_total s = 2 \<and> interpolated (zoom_anim s) 1 = Some 4 \<and>
     (4 :: real) / zoom_total s \<noteq> 1 \<and> on_zoom s 4 = Inr s"
  by (simp add: eval_defs view_defs qt_defs anim_defs)

text \<open>
  C5. When the file decodes, \<open>loadImage\<close> returns with the cumulative zoom 1, the
  scene holding exactly the new item, which is also the stored item, and the transform
  reset: it is the identity, or, when the fit ratio is below 1, the identity scaled by
  the same factor in both directions. If the window has a positive size and the image
  is wider or higher than the window, that factor is below 1 and is the largest one for
  which the scaled image fits the window.
\<close>

theorem loadImage_success:
  assumes "\<not> isNull px"
  shows "\<exists>s' r. loadImage s px = Inr s' \<and>
    zoom_total s' = 1 \<and>
    scene_items s' = [QGraphicsPixmapItem px] \<and>
    pixmap s' = Some (QGraphicsPixmapItem px) \<and>
    ratio s' = Inr r \<and>
    transform s' =
      (if r < 1 \<and> 0 < width s \<and> 0 < height s
       then qt_scale qt_identity
              (min (real_of_int (width s) / real (px_width px))
                   (real_of_int (height s) / real (px_height px)))
              (min (real_of_int (width s) / real (px_width px))
                   (real_of_int (height s) / real (px_height px)))
       else qt_identity) \<and>
    (0 < width s \<and> 0 < height s \<and>
       (real_of_int (width s) < real (px_width px) \<or> real_of_int (height s) < real (px_height px))
     \<longrightarrow> tm11 (transform s') = tm22 (transform s') \<and>
          tm11 (transform s') < 1 \<and>
          tm11 (transform s') * real (px_width px) \<le> real_of_int (width s) \<and>
          tm22 (transform s') * real (px_height px) \<le> real_of_int (height s) \<and>
          (tm11 (transform s') * real (px_width px) = real_of_int (width s) \<or>
           tm22 (transform s') * real (px_height px) = real_of_int (height s)))"
proof -
  let ?it = "QGraphicsPixmapItem px"
  let ?W = "real_of_int (width s)" and ?H = "real_of_int (height s)"
  let ?w = "real (px_width px)" and ?h = "real (px_height px)"
  let ?fit = "min (?W / ?w) (?H / ?h)"
  from assms have pos: "0 < ?w" "0 < ?h" by (simp_all add: isNull_def)
  define s5 where "s5 = scene_addItem ((scene_clear (resetTransform (s\<lparr>zoom_total := 1\<rparr>)))
      \<lparr>pixmap := Some ?it\<rparr>) ?it"
  have f5: "zoom_total s5 = 1" "scene_items s5 = [?it]" "pixmap s5 = Some ?it"
    "transform s5 = qt_identity" "width s5 = width s" "height s5 = height s"
    "fst (scene_rect s5) = max (fst (scene_rect s)) ?w"
    "snd (scene_rect s5) = max (snd (scene_rect s)) ?h"
    by (simp_all add: s5_def view_defs)
  have rect: "0 < fst (scene_rect s5)" "0 < snd (scene_rect s5)"
    using pos f5 by (simp_all add: max_def)
  define r where "r = min (?W / fst (scene_rect s5)) (?H / snd (scene_rect s5))"
  have r: "ratio s5 = Inr r"
    using rect by (simp add: ratio_def py_div_def sceneRect_def Let_def r_def f5)
  have ratio_fit: "ratio (fitInView s5 ?it) = Inr r"
    using r by (simp add: ratio_def sceneRect_def fitInView_fields Let_def cong: sum.case_cong)
  have load: "loadImage s px = (if r < 1 then Inr (fitInView s5 ?it) else Inr s5)"
    using assms r by (simp add: loadImage_def Let_def s5_def)
  have fit: "fitInView s5 ?it =
     (if 0 < width s \<and> 0 < height s then s5\<lparr>transform := qt_scale qt_identity ?fit ?fit\<rparr> else s5)"
    using fitInView_fresh[of s5 ?it] pos f5 by simp
  define s' where "s' = (if r < 1 then fitInView s5 ?it else s5)"
  have s': "loadImage s px = Inr s'" using load by (simp add: s'_def)
  have basic: "zoom_total s' = 1" "scene_items s' = [?it]" "pixmap s' = Some ?it" "ratio s' = Inr r"
    using f5 r ratio_fit by (simp_all add: s'_def fitInView_fields)
  have tr: "transform s' =
      (if r < 1 \<and> 0 < width s \<and> 0 < height s then qt_scale qt_identity ?fit ?fit else qt_identity)"
    using f5 by (simp add: s'_def fit)
  have big: "tm11 (transform s') = tm22 (transform s') \<and>
          tm11 (transform s') < 1 \<and>
          tm11 (transform s') * ?w \<le> ?W \<and> tm22 (transform s') * ?h \<le> ?H \<and>
          (tm11 (transform s') * ?w = ?W \<or> tm22 (transform s') * ?h = ?H)"
    if wh: "0 < width s" "0 < height s" and ex: "?W < ?w \<or> ?H < ?h"
  proof -
    have "?W / ?w < 1 \<or> ?H / ?h < 1" using ex pos by simp
    then have fit_lt: "?fit < 1" by (simp add: min_less_iff_disj)
    have "?W / fst (scene_rect s5) \<le> ?W / ?w"
      using wh pos f5 by (simp add: frac_le)
    moreover have "?H / snd (scene_rect s5) \<le> ?H / ?h"
      using wh pos f5 by (simp add: frac_le)
    ultimately have "r \<le> ?fit" unfolding r_def by (auto simp: min_def)
    then have "r < 1" using fit_lt by (rule le_less_trans)
    then have t: "transform s' = qt_scale qt_identity ?fit ?fit" using tr wh by simp
    have "?fit \<le> ?W / ?w" by simp
    then have a: "?fit * ?w \<le> ?W" using pos(1) by (simp only: pos_le_divide_eq)
    have "?fit \<le> ?H / ?h" by simp
    then have b: "?fit * ?h \<le> ?H" using pos(2) by (simp only: pos_le_divide_eq)
    have "?fit = ?W / ?w \<or> ?fit = ?H / ?h" by (simp add: min_def)
    then have c: "?fit * ?w = ?W \<or> ?fit * ?h = ?H"
      using pos by auto
    show ?thesis using t fit_lt a b c by (simp add: qt_scale_def qt_identity_def)
  qed
  show ?thesis
  proof (rule exI[of _ s'], rule exI[of _ r], intro conjI impI)
    show "loadImage s px = Inr s'" by (rule s')
    show "transform s' =
      (if r < 1 \<and> 0 < width s \<and> 0 < height s then qt_scale qt_identity ?fit ?fit else qt_identity)"
      by (rule tr)
  qed (use basic big in blast)+
qed

theorem loadImage_success_witness:
  "\<not> isNull \<lparr>px_width = 1400, px_height = 960\<rparr> \<and>
   0 < width (init_viewer 700 480) \<and> 0 < height (init_viewer 700 480) \<and>
   real_of_int (width (init_viewer 700 480)) < real (px_width \<lparr>px_width = 1400, px_height = 960\<rparr>) \<and>
   (\<exists>s'. loadImage (init_viewer 700 480) \<lparr>px_width = 1400, px_height = 960\<rparr> = Inr s' \<and>
      zoom_total s' = 1 \<and>
      scene_items s' = [QGraphicsPixmapItem \<lparr>px_width = 1400, px_height = 960\<rparr>] \<and>
      tm11 (transform s') = tm22 (transform s') \<and> tm11 (transform s') < 1)"
  using loadImage_success[of "\<lparr>px_width = 1400, px_height = 960\<rparr>" "init_viewer 700 480"]
  by (auto simp: isNull_def init_viewer_def)

text \<open>
  C6. When decoding fails (null pixmap), \<open>loadImage\<close> returns without raising and
  the whole viewer state is as before.
\<close>

theorem loadImage_null_noop: "isNull px \<Longrightarrow> loadImage s px = Inr s"
  by (simp add: loadImage_def)

theorem loadImage_null_noop_witness:
  "isNull \<lparr>px_width = 0, px_height = 0\<rparr> \<and>
   loadImage ((init_viewer 700 480)\<lparr>zoom_total := 2\<rparr>) \<lparr>px_width = 0, px_height = 0\<rparr>
     = Inr ((init_viewer 700 480)\<lparr>zoom_total := 2\<rparr>)"
  using loadImage_null_noop[of "\<lparr>px_width = 0, px_height = 0\<rparr>" "(init_viewer 700 480)\<lparr>zoom_total := 2\<rparr>"]
  by (simp add: isNull_def)

text \<open>
  C7. A wheel event with a negative angle delta at cumulative zoom 1 is refused: the
  state is unchanged. Every other wheel event stores the rounded cursor position and
  its scene mapping as the zoom anchor and calls \<open>zoom\<close>, with factor 1.1 when the
  delta is positive and 0.9 when it is negative; the anchor is still the stored one
  when the call returns.
\<close>

theorem wheelEvent_cases:
  "(angle < 0 \<and> zoom_total s = 1 \<longrightarrow> wheelEvent s angle pos = Inr s) \<and>
   (\<not> (angle < 0 \<and> zoom_total s = 1) \<longrightarrow>
      (0 < angle \<longrightarrow> wheelEvent s angle pos =
         zoom (s\<lparr>zoom_origin := toPoint pos, zoom_scene_origin := mapToScene s (toPoint pos)\<rparr>)
           (11 / 10)) \<and>
      (angle < 0 \<longrightarrow> wheelEvent s angle pos =
         zoom (s\<lparr>zoom_origin := toPoint pos, zoom_scene_origin := mapToScene s (toPoint pos)\<rparr>)
           (9 / 10)) \<and>
      (\<forall>s'. wheelEvent s angle pos = Inr s' \<longrightarrow>
         zoom_origin s' = toPoint pos \<and>
         zoom_scene_origin s' = mapToScene s (toPoint pos)))"
proof (intro conjI impI allI)
  fix s'
  assume n: "\<not> (angle < 0 \<and> zoom_total s = 1)" and r: "wheelEvent s angle pos = Inr s'"
  from r have "zoom (s\<lparr>zoom_origin := toPoint pos, zoom_scene_origin := mapToScene s (toPoint pos)\<rparr>)
      (if 0 < angle then 11 / 10 else 9 / 10) = Inr s'"
    unfolding wheelEvent_def Let_def if_not_P[OF n] by simp
  from zoom_anchors[OF this]
  show "zoom_origin s' = toPoint pos" "zoom_scene_origin s' = mapToScene s (toPoint pos)"
    by simp_all
qed (simp_all add: wheelEvent_def Let_def)

theorem wheelEvent_cases_witness:
  "((- 120 :: int) < 0 \<and> zoom_total (init_viewer 700 480) = 1) \<and>
   wheelEvent (init_viewer 700 480) (- 120) (100, 100) = Inr (init_viewer 700 480) \<and>
   \<not> ((120 :: int) < 0 \<and> zoom_total (init_viewer 700 480) = 1) \<and> (0 :: int) < 120 \<and>
   wheelEvent (init_viewer 700 480) 120 (100, 100) =
     zoom ((init_viewer 700 480)\<lparr>zoom_origin := toPoint (100, 100),
        zoom_scene_origin := mapToScene (init_viewer 700 480) (toPoint (100, 100))\<rparr>) (11 / 10) \<and>
   (\<exists>s'. wheelEvent (init_viewer 700 480) 120 (100, 100) = Inr s' \<and>
      zoom_origin s' = (100, 100)) \<and>
   \<not> ((- 120 :: int) < 0 \<and> zoom_total ((init_viewer 700 480)\<lparr>zoom_total := 2\<rparr>) = 1) \<and>
   wheelEvent ((init_viewer 700 480)\<lparr>zoom_total := 2\<rparr>) (- 120) (100, 100) =
     zoom ((init_viewer 700 480)\<lparr>zoom_total := 2, zoom_origin := toPoint (100, 100),
        zoom_scene_origin := mapToScene ((init_viewer 700 480)\<lparr>zoom_total := 2\<rparr>) (toPoint (100, 100))\<rparr>) (9 / 10)"
proof -
  have e: "\<exists>s'. wheelEvent (init_viewer 700 480) 120 (100, 100) = Inr s' \<and>
      zoom_origin s' = (100, 100)"
    by (simp add: eval_defs view_defs qt_defs anim_defs)
  show ?thesis
    using wheelEvent_cases[of "- 120" "init_viewer 700 480" "(100, 100)"]
      wheelEvent_cases[of 120 "init_viewer 700 480" "(100, 100)"]
      wheelEvent_cases[of "- 120" "(init_viewer 700 480)\<lparr>zoom_total := 2\<rparr>" "(100, 100)"] e
    by (simp add: init_viewer_def)
qed

text \<open>
  C8. After any run of deliverable events, a call of \<open>zoom\<close> while the animation is
  not running returns and starts the animation with start value the current cumulative
  zoom and end value \<open>max 1 (zoom_total * f)\<close>.
\<close>

theorem zoom_idle_starts:
  assumes "list_all event_ok evs" "run (init_viewer W H) evs = Inr s"
    "anim_state (zoom_anim s) \<noteq> Running"
  shows "\<exists>s'. zoom s f = Inr s' \<and>
    anim_state (zoom_anim s') = Running \<and>
    start_value (zoom_anim s') = Some (zoom_total s) \<and>
    end_value (zoom_anim s') = Some (max 1 (zoom_total s * f))"
proof -
  from reachable_inv[OF assms(1,2)] have c: "core_inv s" and w: "anim_wf (zoom_anim s)"
    by (simp_all add: viewer_inv_def)
  from w have p: "0 \<le> progress (zoom_anim s)" "progress (zoom_anim s) \<le> 1"
    and g: "anim_values_ge1 (zoom_anim s)" by (simp_all add: anim_wf_def)
  from zoom_result[OF c p g, of f] obtain s' Z where r: "zoom s f = Inr s'"
    "Z = (case snd (setStartValue (anim_stop (zoom_anim s)) (zoom_total s)) of
            None \<Rightarrow> zoom_total s
          | Some v \<Rightarrow> if v / zoom_total s = zoom_total s then zoom_total s else v)"
    "zoom_anim s' =
       \<lparr>anim_state = Running, start_value = Some (zoom_total s),
        end_value = Some (max 1 (Z * (if anim_state (zoom_anim s) = Running then f * f else f))),
        progress = 0, current_value = Some (zoom_total s)\<rparr>"
    by blast
  have "Z = zoom_total s" unfolding r(2) idle_no_emit[OF w assms(3)] by simp
  with r(1,3) assms(3) show ?thesis by simp
qed

theorem zoom_idle_starts_witness:
  "list_all event_ok [LoadImage \<lparr>px_width = 1400, px_height = 960\<rparr>, Zoom 4, Tick 1] \<and>
   (\<exists>s. run (init_viewer 700 480) [LoadImage \<lparr>px_width = 1400, px_height = 960\<rparr>, Zoom 4, Tick 1]
        = Inr s \<and>
      anim_state (zoom_anim s) \<noteq> Running \<and> zoom_total s = 4 \<and>
      (\<exists>s'. zoom s (1 / 2) = Inr s' \<and> anim_state (zoom_anim s') = Running \<and>
         start_value (zoom_anim s') = Some 4 \<and> end_value (zoom_anim s') = Some 2))"
proof -
  obtain s where s: "run (init_viewer 700 480)
      [LoadImage \<lparr>px_width = 1400, px_height = 960\<rparr>, Zoom 4, Tick 1] = Inr s"
    "anim_state (zoom_anim s) \<noteq> Running" "zoom_total s = 4"
    by (simp add: eval_defs view_defs qt_defs anim_defs)
  have ok: "list_all event_ok [LoadImage \<lparr>px_width = 1400, px_height = 960\<rparr>, Zoom 4, Tick 1]"
    by simp
  from zoom_idle_starts[OF ok s(1) s(2), of "1 / 2"] s(3)
  have "\<exists>s'. zoom s (1 / 2) = Inr s' \<and> anim_state (zoom_anim s') = Running \<and>
         start_value (zoom_anim s') = Some 4 \<and> end_value (zoom_anim s') = Some 2"
    by auto
  with ok s show ?thesis by blast
qed

text \<open>
  C9. After any run of deliverable events, a resize event on a viewer with a loaded
  image returns without raising, leaves the cumulative zoom as it is, and leaves the
  horizontal scale coefficient equal to the fit ratio for the new window size times the
  cumulative zoom; at cumulative zoom 1 it is the fit ratio itself.
\<close>

theorem resizeEvent_m11:
  assumes "list_all event_ok evs" "run (init_viewer W0 H0) evs = Inr s" "pixmap s \<noteq> None"
  shows "\<exists>s' r. resizeEvent s W H = Inr s' \<and> ratio s' = Inr r \<and>
     r = min (real_of_int W / fst (sceneRect s')) (real_of_int H / snd (sceneRect s')) \<and>
     zoom_total s' = zoom_total s \<and>
     m11 s' = r * zoom_total s' \<and>
     (zoom_total s = 1 \<longrightarrow> m11 s' = r)"
proof -
  from reachable_inv[OF assms(1,2)] have inv: "viewer_inv s" .
  with assms(3) have p: "tm11 (transform s) \<noteq> 0" "fst (scene_rect s) \<noteq> 0" "snd (scene_rect s) \<noteq> 0"
    by (simp_all add: viewer_inv_def core_inv_def)
  let ?r = "min (real_of_int W / fst (scene_rect s)) (real_of_int H / snd (scene_rect s))"
  let ?f = "?r * zoom_total s / tm11 (transform s)"
  let ?s' = "scale (s\<lparr>width := W, height := H\<rparr>) ?f ?f"
  have res: "resizeEvent s W H = Inr ?s'"
    using resizeEvent_loaded[OF assms(3) p] .
  have rat: "ratio ?s' = Inr ?r"
    using p by (simp add: ratio_def py_div_def sceneRect_def scale_def Let_def)
  have m: "m11 ?s' = ?r * zoom_total s"
    using p by (simp add: m11_def scale_def qt_scale_def)
  show ?thesis
  proof (rule exI[of _ ?s'], rule exI[of _ ?r], intro conjI impI)
    show "resizeEvent s W H = Inr ?s'" by (rule res)
    show "ratio ?s' = Inr ?r" by (rule rat)
    show "?r = min (real_of_int W / fst (sceneRect ?s')) (real_of_int H / snd (sceneRect ?s'))"
      by (simp add: sceneRect_def scale_def)
    show "zoom_total ?s' = zoom_total s" by (simp add: scale_def)
    show "m11 ?s' = ?r * zoom_total ?s'" using m by (simp add: scale_def)
    show "m11 ?s' = ?r" if "zoom_total s = 1" using m that by simp
  qed
qed

theorem resizeEvent_m11_witness:
  "list_all event_ok [LoadImage \<lparr>px_width = 1400, px_height = 960\<rparr>] \<and>
   (\<exists>s. run (init_viewer 700 480) [LoadImage \<lparr>px_width = 1400, px_height = 960\<rparr>] = Inr s \<and>
      pixmap s \<noteq> None \<and>
      (\<exists>s' r. resizeEvent s 1050 960 = Inr s' \<and> ratio s' = Inr r \<and>
         m11 s' = r * zoom_total s'))"
proof -
  obtain s where s: "run (init_viewer 700 480) [LoadImage \<lparr>px_width = 1400, px_height = 960\<rparr>] = Inr s"
    "pixmap s \<noteq> None"
    by (simp add: eval_defs view_defs qt_defs)
  have ok: "list_all event_ok [LoadImage \<lparr>px_width = 1400, px_height = 960\<rparr>]" by simp
  from resizeEvent_m11[OF ok s(1) s(2), of 1050 960]
  have "\<exists>s' r. resizeEvent s 1050 960 = Inr s' \<and> ratio s' = Inr r \<and> m11 s' = r * zoom_total s'"
    by blast
  with ok s show ?thesis by blast
qed




end
